theory Spec2Isabelle
  imports Main
begin

section \<open>Ant routing: orchestration and route reconstruction (ant_easy.py)\<close>

text \<open>
  The module \<^verbatim>\<open>ant_easy.py\<close> drives an ant search over a list of nodes:
  \<^verbatim>\<open>generate_seed\<close>, \<^verbatim>\<open>get_route\<close>, \<^verbatim>\<open>check_match\<close>, \<^verbatim>\<open>stop_all_nodes\<close> and
  \<^verbatim>\<open>build_route\<close>. The classes \<^verbatim>\<open>Node\<close> and \<^verbatim>\<open>Payment\<close> are imported from
  \<^verbatim>\<open>ant_testing\<close>; only the attributes this module touches are modelled.
\<close>

subsection \<open>Errors\<close>

text \<open>
  The exceptions the module can raise: the two explicit \<^verbatim>\<open>raise Exception(msg)\<close> of
  \<^verbatim>\<open>get_route\<close>, and the interpreter's own errors for a list index out of range, a
  missing dictionary key, an attribute read on \<^verbatim>\<open>None\<close> and an exhausted call stack.
\<close>

datatype error =
    Exception string
  | IndexError
  | KeyError
  | AttributeError
  | RecursionError

text \<open>
  The error kinds of the specification, and the kind each raised exception belongs to.
  Only the two exceptions that \<^verbatim>\<open>get_route\<close> raises on purpose have a kind; an
  interpreter error is none of the specification's kinds.
\<close>

datatype error_kind = InvalidEndpoint | BudgetExhausted | NotMatched | Integrity

definition kind_of :: "error \<Rightarrow> error_kind option" where
  "kind_of e =
     (if e = Exception ''alice or bob are not connected'' then Some InvalidEndpoint
      else if e = Exception ''alice and bob is the same node'' then Some InvalidEndpoint
      else None)"

subsection \<open>Data model\<close>

text \<open>
  \<^verbatim>\<open>payment.match\<close> carries \<^verbatim>\<open>match_id\<close> and \<^verbatim>\<open>from_id\<close> (read in \<^verbatim>\<open>main\<close>).
\<close>

record match_info =
  match_id :: string
  from_id :: int

text \<open>
  Modelled from the spec: the class \<^verbatim>\<open>Payment\<close> is not part of the module. Its
  constructor is called with eight positional arguments
  \<^verbatim>\<open>Payment(seed, amount, <flag>, <flag>, node_bob, node_alice, fees, counter)\<close>;
  the specification lists the role flags as "is-Bob-side / is-Alice-side", in this order.
  The two node arguments are kept as the nodes' indices in the network. The attribute
  \<^verbatim>\<open>match\<close> is unset (\<^verbatim>\<open>None\<close>) until a match is recorded.
\<close>

record payment =
  pay_seed :: string
  pay_amount :: int
  is_bob_side :: bool
  is_alice_side :: bool
  pay_bob :: int
  pay_alice :: int
  fee_budget :: int
  hop_counter :: int
  match :: "match_info option"

text \<open>
  Modelled from the spec: the class \<^verbatim>\<open>Node\<close> is not part of the module. The
  attributes used here are \<^verbatim>\<open>maxfees\<close>, \<^verbatim>\<open>payment\<close> (the active payment, if any),
  \<^verbatim>\<open>match_data\<close> (a dictionary from a match id to the node the matched seed arrived
  from) and the running flag that \<^verbatim>\<open>start()\<close> and \<^verbatim>\<open>stop()\<close> set.
\<close>

record node =
  maxfees :: int
  payment :: "payment option"
  match_data :: "string \<rightharpoonup> int"
  running :: bool

text \<open>
  Modelled from the spec: the methods \<^verbatim>\<open>Node.set_payment\<close>, \<^verbatim>\<open>Node.start\<close> and
  \<^verbatim>\<open>Node.stop\<close> are not part of the module. \<^verbatim>\<open>set_payment\<close> installs the payment as
  the node's active payment; \<^verbatim>\<open>start\<close> and \<^verbatim>\<open>stop\<close> set and clear the running flag.
\<close>

definition set_payment :: "node \<Rightarrow> payment \<Rightarrow> node" where
  "set_payment nd p = nd\<lparr>payment := Some p\<rparr>"

definition node_start :: "node \<Rightarrow> node" where
  "node_start nd = nd\<lparr>running := True\<rparr>"

definition node_stop :: "node \<Rightarrow> node" where
  "node_stop nd = nd\<lparr>running := False\<rparr>"

text \<open>
  \<^verbatim>\<open>network[i]\<close> on a Python list: a negative index counts from the end, and an index
  outside \<^verbatim>\<open>[-len, len)\<close> raises \<^verbatim>\<open>IndexError\<close>.
\<close>

definition getitem :: "'a list \<Rightarrow> int \<Rightarrow> error + 'a" where
  "getitem xs i =
     (if 0 \<le> i \<and> i < int (length xs) then Inr (xs ! nat i)
      else if i < 0 \<and> - int (length xs) \<le> i then Inr (xs ! nat (int (length xs) + i))
      else Inl IndexError)"

subsection \<open>generate_seed\<close>

text \<open>
  \<^verbatim>\<open>getrandbits(k)\<close> returns an integer with \<^verbatim>\<open>k\<close> random bits and
  \<^verbatim>\<open>randint(a, b)\<close> an integer \<^verbatim>\<open>N\<close> with \<^verbatim>\<open>a <= N <= b\<close>. The generator's draw is
  an argument \<open>r\<close>, an arbitrary natural number, reduced to the range of the call.
\<close>

definition getrandbits :: "nat \<Rightarrow> nat \<Rightarrow> int" where
  "getrandbits k r = int (r mod 2 ^ k)"

definition randint :: "int \<Rightarrow> int \<Rightarrow> nat \<Rightarrow> int" where
  "randint a b r = a + int r mod (b - a + 1)"

text \<open>\<^verbatim>\<open>bin(n)\<close>: the binary digits, most significant first, after \<^verbatim>\<open>0b\<close> or \<^verbatim>\<open>-0b\<close>.\<close>

definition bit_char :: "nat \<Rightarrow> char" where
  "bit_char b = (if b = 0 then CHR ''0'' else CHR ''1'')"

fun bin_digits :: "nat \<Rightarrow> string" where
  "bin_digits n = (if n < 2 then [bit_char n] else bin_digits (n div 2) @ [bit_char (n mod 2)])"

declare bin_digits.simps [simp del]

definition bin :: "int \<Rightarrow> string" where
  "bin n = (if n < 0 then ''-0b'' @ bin_digits (nat (- n)) else ''0b'' @ bin_digits (nat n))"

text \<open>
  \<^verbatim>\<open>s.zfill(width)\<close>: pads with \<^verbatim>\<open>'0'\<close> on the left up to \<^verbatim>\<open>width\<close>; a leading
  sign stays in front of the padding; a string that is long enough is returned as it is.
\<close>

definition zfill :: "nat \<Rightarrow> string \<Rightarrow> string" where
  "zfill width s =
     (if width \<le> length s then s
      else (case s of
              [] \<Rightarrow> replicate width (CHR ''0'')
            | c # rest \<Rightarrow>
                if c = CHR ''+'' \<or> c = CHR ''-''
                then c # replicate (width - length s) (CHR ''0'') @ rest
                else replicate (width - length s) (CHR ''0'') @ s))"

text \<open>\<^verbatim>\<open>seed = bin(getrandbits(128))[2:].zfill(128)\<close>\<close>

definition generate_seed :: "nat \<Rightarrow> string" where
  "generate_seed r = zfill 128 (drop 2 (bin (getrandbits 128 r)))"

subsection \<open>start_all_nodes, stop_all_nodes\<close>

definition start_all_nodes :: "node list \<Rightarrow> node list" where
  "start_all_nodes network = map node_start network"

definition stop_all_nodes :: "node list \<Rightarrow> node list" where
  "stop_all_nodes network = map node_stop network"

subsection \<open>get_route\<close>

text \<open>
  The state \<^verbatim>\<open>get_route\<close> acts on: the nodes of the network, and the search tasks created
  so far (\<^verbatim>\<open>asyncio.create_task(node.ant_route())\<close>), each named by the index of its node.
  The model covers \<^verbatim>\<open>get_route\<close> up to the creation of the tasks; what the tasks do when
  they are awaited is \<^verbatim>\<open>Node.ant_route\<close>, which is not part of the module.
  The arguments \<open>r1\<close> and \<open>r2\<close> are the draws of \<^verbatim>\<open>getrandbits\<close> and \<^verbatim>\<open>randint\<close>.
  The result is the exception raised, if any, and the state the call leaves.
\<close>

record world =
  nodes :: "node list"
  tasks :: "nat list"

definition get_route :: "world \<Rightarrow> int \<Rightarrow> int \<Rightarrow> int \<Rightarrow> nat \<Rightarrow> nat \<Rightarrow> error option \<times> world" where
  "get_route w alice bob amount r1 r2 =
     (let network = nodes w in
      if \<not> (0 \<le> alice \<and> alice < int (length network)) \<or> \<not> (0 \<le> bob \<and> bob < int (length network))
      then (Some (Exception ''alice or bob are not connected''), w)
      else if bob = alice
      then (Some (Exception ''alice and bob is the same node''), w)
      else
        let seed = generate_seed r1;
            counter = randint 64 128 r2;
            node_bob = network ! nat bob;
            node_alice = network ! nat alice;
            payment_alice = \<lparr>pay_seed = seed, pay_amount = amount,
              is_bob_side = False, is_alice_side = True,
              pay_bob = bob, pay_alice = alice,
              fee_budget = maxfees node_bob + maxfees node_alice,
              hop_counter = counter, match = None\<rparr>;
            payment_bob = \<lparr>pay_seed = seed, pay_amount = amount,
              is_bob_side = True, is_alice_side = False,
              pay_bob = bob, pay_alice = alice,
              fee_budget = maxfees node_bob + maxfees node_alice,
              hop_counter = counter, match = None\<rparr>;
            network1 = network[nat bob := set_payment node_bob payment_bob];
            network2 = network1[nat alice := set_payment node_alice payment_alice]
        in (None, \<lparr>nodes = network2, tasks = tasks w @ [0..<length network2]\<rparr>))"

subsection \<open>check_match\<close>

text \<open>
  \<^verbatim>\<open>network[fromNode].payment.match\<close> is read by \<open>match_of\<close>; \<^verbatim>\<open>payment\<close> being
  \<^verbatim>\<open>None\<close> makes \<^verbatim>\<open>.match\<close> raise.
  One evaluation of the body of the \<^verbatim>\<open>while\<close> loop on the network as it stands:
  the flag \<^verbatim>\<open>found\<close> and the network the iteration leaves. When the match is unset the
  iteration only sleeps.
\<close>

definition match_of :: "node list \<Rightarrow> int \<Rightarrow> error + match_info option" where
  "match_of network fromNode =
     (case getitem network fromNode of
        Inl e \<Rightarrow> Inl e
      | Inr nd \<Rightarrow> (case payment nd of None \<Rightarrow> Inl AttributeError | Some p \<Rightarrow> Inr (match p)))"

definition check_match_body :: "node list \<Rightarrow> int \<Rightarrow> bool \<Rightarrow> error + (bool \<times> node list)" where
  "check_match_body network fromNode stop =
     (case match_of network fromNode of
        Inl e \<Rightarrow> Inl e
      | Inr None \<Rightarrow> Inr (False, network)
      | Inr (Some m) \<Rightarrow> Inr (True, if stop then stop_all_nodes network else network))"

text \<open>
  The loop. Between two iterations the coroutine sleeps and the other tasks change the
  network, so the loop reads a sequence of networks: \<open>env i\<close> is the network at the
  \<open>i\<close>-th iteration. The loop may never end; not returning is \<open>None\<close>.
  \<^verbatim>\<open>checkTime\<close> is the length of the sleep only.
\<close>

partial_function (option) check_match_loop ::
  "(nat \<Rightarrow> node list) \<Rightarrow> int \<Rightarrow> bool \<Rightarrow> nat \<Rightarrow> (error + node list) option" where
  "check_match_loop env fromNode stop i =
     (case check_match_body (env i) fromNode stop of
        Inl e \<Rightarrow> Some (Inl e)
      | Inr r \<Rightarrow> if fst r then Some (Inr (snd r)) else check_match_loop env fromNode stop (Suc i))"

definition check_match :: "(nat \<Rightarrow> node list) \<Rightarrow> int \<Rightarrow> nat \<Rightarrow> bool \<Rightarrow> (error + node list) option" where
  "check_match env fromNode checkTime stop = check_match_loop env fromNode stop 0"

subsection \<open>build_route\<close>

text \<open>\<^verbatim>\<open>next = network[current].match_data[matchId]\<close>\<close>

definition next_of :: "node list \<Rightarrow> string \<Rightarrow> int \<Rightarrow> error + int" where
  "next_of network matchId current =
     (case getitem network current of
        Inl e \<Rightarrow> Inl e
      | Inr nd \<Rightarrow> (case match_data nd matchId of None \<Rightarrow> Inl KeyError | Some nxt \<Rightarrow> Inr nxt))"

text \<open>
  \<^verbatim>\<open>build_route(network, matchId, current, res)\<close> is recursive and appends to the list
  object \<^verbatim>\<open>res\<close> in place. The first argument is the number of nested calls the
  interpreter still allows: a call beyond it raises \<^verbatim>\<open>RecursionError\<close> before its body
  runs. The result is the exception raised, if any, and the content of \<^verbatim>\<open>res\<close> when the
  call ends; a call that returns, returns the object \<^verbatim>\<open>res\<close> itself.
\<close>

fun build_route :: "nat \<Rightarrow> node list \<Rightarrow> string \<Rightarrow> int \<Rightarrow> int list \<Rightarrow> error option \<times> int list" where
  "build_route 0 network matchId current res = (Some RecursionError, res)"
| "build_route (Suc depth) network matchId current res =
     (case next_of network matchId current of
        Inl e \<Rightarrow> (Some e, res)
      | Inr nxt \<Rightarrow>
          (let res' = res @ [current] in
           if current = nxt then (None, res')
           else build_route depth network matchId nxt res'))"

text \<open>
  A call that omits \<^verbatim>\<open>res\<close> uses the default \<^verbatim>\<open>res=[]\<close>. Python evaluates a default
  once, when the function is defined: every such call works on the same list object,
  whose content \<open>dflt\<close> is a state of the module. The call returns that object.
\<close>

definition build_route_default ::
  "nat \<Rightarrow> node list \<Rightarrow> string \<Rightarrow> int \<Rightarrow> int list \<Rightarrow> error option \<times> int list" where
  "build_route_default depth network matchId current dflt =
     build_route depth network matchId current dflt"

text \<open>Following the backward pointers \<open>n\<close> times from a node (to state the claims).\<close>

fun follow :: "node list \<Rightarrow> string \<Rightarrow> nat \<Rightarrow> int \<Rightarrow> int option" where
  "follow network matchId 0 u = Some u"
| "follow network matchId (Suc n) u =
     (case next_of network matchId u of Inl e \<Rightarrow> None | Inr v \<Rightarrow> follow network matchId n v)"

text \<open>
  A route along the backward pointers: every element points to the next one and is not
  its own pointer, and the last element is.
\<close>

fun is_chain :: "node list \<Rightarrow> string \<Rightarrow> int list \<Rightarrow> bool" where
  "is_chain network matchId [] = False"
| "is_chain network matchId [u] = (next_of network matchId u = Inr u)"
| "is_chain network matchId (u # v # p) =
     (next_of network matchId u = Inr v \<and> u \<noteq> v \<and> is_chain network matchId (v # p))"

subsection \<open>Example networks\<close>

definition plain_node :: node where
  "plain_node = \<lparr>maxfees = 3, payment = None, match_data = Map.empty, running = True\<rparr>"

definition ptr_node :: "int \<Rightarrow> node" where
  "ptr_node v = plain_node\<lparr>match_data := [''m'' \<mapsto> v]\<rparr>"

text \<open>One endpoint; two endpoints; a line \<open>2 \<rightarrow> 1 \<rightarrow> 0\<close>; two nodes pointing at each other.\<close>

definition one_end :: "node list" where
  "one_end = [ptr_node 0]"

definition two_ends :: "node list" where
  "two_ends = [ptr_node 0, ptr_node 1]"

definition line3 :: "node list" where
  "line3 = [ptr_node 0, ptr_node 0, ptr_node 1]"

definition two_cycle :: "node list" where
  "two_cycle = [ptr_node 1, ptr_node 0]"

definition small_world :: world where
  "small_world = \<lparr>nodes = [plain_node, plain_node\<lparr>maxfees := 4\<rparr>, plain_node], tasks = []\<rparr>"

definition open_payment :: payment where
  "open_payment = \<lparr>pay_seed = ''0101'', pay_amount = 1, is_bob_side = False,
     is_alice_side = True, pay_bob = 1, pay_alice = 0, fee_budget = 7, hop_counter = 64,
     match = None\<rparr>"

definition searching :: "node list" where
  "searching = [plain_node\<lparr>payment := Some open_payment\<rparr>, plain_node]"

definition matched :: "node list" where
  "matched =
     [plain_node\<lparr>payment := Some (open_payment\<lparr>match := Some \<lparr>match_id = ''m'', from_id = 1\<rparr>\<rparr>)\<rparr>,
      plain_node]"

text \<open>The match appears at the third poll.\<close>

definition watch_env :: "nat \<Rightarrow> node list" where
  "watch_env i = (if i < 2 then searching else matched)"

section \<open>Properties\<close>

subsection \<open>The seed and the counter\<close>

lemma bin_digits_length: "n < 2 ^ k \<Longrightarrow> 0 < k \<Longrightarrow> length (bin_digits n) \<le> k"
proof (induction k arbitrary: n)
  case 0
  then show ?case by simp
next
  case (Suc k)
  show ?case
  proof (cases "n < 2")
    case True
    then show ?thesis by (subst bin_digits.simps) simp
  next
    case False
    with Suc.prems have k: "0 < k" by (cases k) auto
    from Suc.prems have "n div 2 < 2 ^ k" by (simp add: less_mult_imp_div_less mult.commute)
    from Suc.IH[OF this k] False show ?thesis by (subst bin_digits.simps) simp
  qed
qed

lemma bin_digits_chars: "set (bin_digits n) \<subseteq> {CHR ''0'', CHR ''1''}"
proof (induction n rule: bin_digits.induct)
  case (1 n)
  then show ?case by (subst bin_digits.simps) (auto simp: bit_char_def)
qed

lemma bin_digits_nonempty: "bin_digits n \<noteq> []"
  by (subst bin_digits.simps) simp

text \<open>The slice \<^verbatim>\<open>[2:]\<close> removes exactly the prefix \<^verbatim>\<open>0b\<close>: the draw is never negative.\<close>

lemma seed_digits: "drop 2 (bin (getrandbits k r)) = bin_digits (r mod 2 ^ k)"
  by (simp add: bin_def getrandbits_def)

lemma zfill_digits:
  assumes "length s \<le> w" "s \<noteq> []" "set s \<subseteq> {CHR ''0'', CHR ''1''}"
  shows "zfill w s = replicate (w - length s) (CHR ''0'') @ s"
proof -
  from assms obtain c rest where s: "s = c # rest" by (cases s) auto
  with assms(3) have "c \<noteq> CHR ''+''" "c \<noteq> CHR ''-''" by auto
  then show ?thesis using s by (auto simp: zfill_def)
qed

lemma seed_digits_short: "length (bin_digits (r mod 2 ^ 128)) \<le> 128"
  by (rule bin_digits_length) simp_all

lemma generate_seed_eq:
  "generate_seed r =
     replicate (128 - length (bin_digits (r mod 2 ^ 128))) (CHR ''0'') @ bin_digits (r mod 2 ^ 128)"
  unfolding generate_seed_def seed_digits
  by (rule zfill_digits) (rule seed_digits_short, rule bin_digits_nonempty, rule bin_digits_chars)

lemma generate_seed_length: "length (generate_seed r) = 128"
  using seed_digits_short[of r] by (simp add: generate_seed_eq)

lemma generate_seed_chars: "set (generate_seed r) \<subseteq> {CHR ''0'', CHR ''1''}"
  using bin_digits_chars[of "r mod 2 ^ 128"] by (auto simp: generate_seed_eq)

lemma randint_range: "a \<le> b \<Longrightarrow> a \<le> randint a b r \<and> randint a b r \<le> b"
proof -
  assume "a \<le> b"
  then have "0 < b - a + 1" by simp
  then have "0 \<le> int r mod (b - a + 1)" "int r mod (b - a + 1) < b - a + 1"
    by (rule pos_mod_sign, rule pos_mod_bound)
  then show ?thesis unfolding randint_def by linarith
qed

subsection \<open>get_route\<close>

lemma get_route_success_iff:
  "fst (get_route w alice bob amount r1 r2) = None \<longleftrightarrow>
   0 \<le> alice \<and> alice < int (length (nodes w)) \<and> 0 \<le> bob \<and> bob < int (length (nodes w)) \<and>
   bob \<noteq> alice"
  by (auto simp: get_route_def Let_def)

lemma get_route_payment_alice:
  assumes "fst (get_route w alice bob amount r1 r2) = None"
  shows "payment (nodes (snd (get_route w alice bob amount r1 r2)) ! nat alice) =
      Some \<lparr>pay_seed = generate_seed r1, pay_amount = amount,
              is_bob_side = False, is_alice_side = True,
              pay_bob = bob, pay_alice = alice,
              fee_budget = maxfees (nodes w ! nat bob) + maxfees (nodes w ! nat alice),
              hop_counter = randint 64 128 r2, match = None\<rparr>"
proof -
  from assms have r: "0 \<le> alice" "alice < int (length (nodes w))" "0 \<le> bob"
    "bob < int (length (nodes w))" "bob \<noteq> alice"
    by (simp_all add: get_route_success_iff)
  then have "nat bob \<noteq> nat alice" "nat alice < length (nodes w)" by auto
  with r show ?thesis by (simp add: get_route_def Let_def set_payment_def)
qed

lemma get_route_payment_bob:
  assumes "fst (get_route w alice bob amount r1 r2) = None"
  shows "payment (nodes (snd (get_route w alice bob amount r1 r2)) ! nat bob) =
      Some \<lparr>pay_seed = generate_seed r1, pay_amount = amount,
              is_bob_side = True, is_alice_side = False,
              pay_bob = bob, pay_alice = alice,
              fee_budget = maxfees (nodes w ! nat bob) + maxfees (nodes w ! nat alice),
              hop_counter = randint 64 128 r2, match = None\<rparr>"
proof -
  from assms have r: "0 \<le> alice" "alice < int (length (nodes w))" "0 \<le> bob"
    "bob < int (length (nodes w))" "bob \<noteq> alice"
    by (simp_all add: get_route_success_iff)
  then have "nat bob \<noteq> nat alice" "nat bob < length (nodes w)" by auto
  with r show ?thesis by (simp add: get_route_def Let_def set_payment_def)
qed

lemma get_route_tasks:
  assumes "fst (get_route w alice bob amount r1 r2) = None"
  shows "tasks (snd (get_route w alice bob amount r1 r2)) = tasks w @ [0..<length (nodes w)]"
  using assms by (simp add: get_route_def Let_def split: if_splits)

lemma get_route_small_world: "fst (get_route small_world 0 1 10 5 7) = None"
  by (simp add: get_route_success_iff small_world_def)

text \<open>
  Claim C3. \<^verbatim>\<open>get_route\<close> fails with an exception of the kind InvalidEndpoint exactly
  when \<open>alice\<close> or \<open>bob\<close> is outside \<open>[0, len(network))\<close> or \<open>alice = bob\<close>; a call
  that fails leaves the state as it was: no payment is installed on any node and no
  search task is created.
\<close>

theorem get_route_invalid_endpoint:
  "((\<exists>e. fst (get_route w alice bob amount r1 r2) = Some e \<and> kind_of e = Some InvalidEndpoint) \<longleftrightarrow>
      (\<not> (0 \<le> alice \<and> alice < int (length (nodes w))) \<or>
       \<not> (0 \<le> bob \<and> bob < int (length (nodes w))) \<or> alice = bob)) \<and>
   (fst (get_route w alice bob amount r1 r2) \<noteq> None \<longrightarrow>
      snd (get_route w alice bob amount r1 r2) = w)"
  by (auto simp: get_route_def Let_def kind_of_def)

theorem get_route_invalid_endpoint_witness:
  "(\<exists>e. fst (get_route small_world 1 1 10 5 7) = Some e \<and> kind_of e = Some InvalidEndpoint) \<and>
   snd (get_route small_world 1 1 10 5 7) = small_world \<and>
   (\<exists>e. fst (get_route small_world 0 3 10 5 7) = Some e \<and> kind_of e = Some InvalidEndpoint) \<and>
   snd (get_route small_world 0 3 10 5 7) = small_world \<and>
   (\<nexists>e. fst (get_route small_world 0 1 10 5 7) = Some e \<and> kind_of e = Some InvalidEndpoint)"
proof -
  have len: "int (length (nodes small_world)) = 3"
    by (simp add: small_world_def)
  show ?thesis
    using get_route_invalid_endpoint [of small_world 1 1 10 5 7]
      get_route_invalid_endpoint [of small_world 0 3 10 5 7]
      get_route_invalid_endpoint [of small_world 0 1 10 5 7]
    by (auto simp: len)
qed

text \<open>
  Claim C7. After a successful call of \<^verbatim>\<open>get_route\<close> both endpoints hold a payment
  with the same hop counter, the value \<^verbatim>\<open>randint(64, 128)\<close> drew, and that value lies in
  the inclusive range from 64 to 128.
\<close>

theorem get_route_counter_range:
  assumes "fst (get_route w alice bob amount r1 r2) = None"
  shows "\<exists>pa pb. payment (nodes (snd (get_route w alice bob amount r1 r2)) ! nat alice) = Some pa \<and>
           payment (nodes (snd (get_route w alice bob amount r1 r2)) ! nat bob) = Some pb \<and>
           hop_counter pa = randint 64 128 r2 \<and> hop_counter pb = randint 64 128 r2 \<and>
           64 \<le> randint 64 128 r2 \<and> randint 64 128 r2 \<le> 128"
  using get_route_payment_alice[OF assms] get_route_payment_bob[OF assms]
    randint_range[of 64 128 r2]
  by simp

theorem get_route_counter_range_witness:
  "\<exists>pa pb. payment (nodes (snd (get_route small_world 0 1 10 5 7)) ! nat 0) = Some pa \<and>
     payment (nodes (snd (get_route small_world 0 1 10 5 7)) ! nat 1) = Some pb \<and>
     hop_counter pa = randint 64 128 7 \<and> hop_counter pb = randint 64 128 7 \<and>
     64 \<le> randint 64 128 7 \<and> randint 64 128 7 \<le> 128"
  using get_route_counter_range [OF get_route_small_world] .

text \<open>
  Claim C8. Every seed that \<^verbatim>\<open>generate_seed\<close> returns is a string of exactly 128
  characters, each \<^verbatim>\<open>0\<close> or \<^verbatim>\<open>1\<close>, whatever the draw (a draw with high-order zero bits
  is padded), and a successful \<^verbatim>\<open>get_route\<close> installs that one seed in both endpoints'
  payments.
\<close>

theorem generate_seed_128_bits:
  "length (generate_seed r1) = 128 \<and>
   (\<forall>c\<in>set (generate_seed r1). c = CHR ''0'' \<or> c = CHR ''1'') \<and>
   (fst (get_route w alice bob amount r1 r2) = None \<longrightarrow>
      (\<exists>pa pb. payment (nodes (snd (get_route w alice bob amount r1 r2)) ! nat alice) = Some pa \<and>
         payment (nodes (snd (get_route w alice bob amount r1 r2)) ! nat bob) = Some pb \<and>
         pay_seed pa = generate_seed r1 \<and> pay_seed pb = generate_seed r1))"
proof (intro conjI impI)
  show "length (generate_seed r1) = 128" by (rule generate_seed_length)
  show "\<forall>c\<in>set (generate_seed r1). c = CHR ''0'' \<or> c = CHR ''1''"
    using generate_seed_chars[of r1] by auto
next
  assume ok: "fst (get_route w alice bob amount r1 r2) = None"
  show "\<exists>pa pb. payment (nodes (snd (get_route w alice bob amount r1 r2)) ! nat alice) = Some pa \<and>
         payment (nodes (snd (get_route w alice bob amount r1 r2)) ! nat bob) = Some pb \<and>
         pay_seed pa = generate_seed r1 \<and> pay_seed pb = generate_seed r1"
    using get_route_payment_alice[OF ok] get_route_payment_bob[OF ok] by simp
qed

theorem generate_seed_128_bits_witness:
  "length (generate_seed 5) = 128 \<and>
   generate_seed 5 = replicate 125 (CHR ''0'') @ ''101'' \<and>
   (\<exists>pa pb. payment (nodes (snd (get_route small_world 0 1 10 5 7)) ! nat 0) = Some pa \<and>
      payment (nodes (snd (get_route small_world 0 1 10 5 7)) ! nat 1) = Some pb \<and>
      pay_seed pa = generate_seed 5 \<and> pay_seed pb = generate_seed 5)"
proof -
  have "generate_seed 5 = replicate 125 (CHR ''0'') @ ''101''"
    by (simp add: generate_seed_eq bin_digits.simps bit_char_def)
  then show ?thesis
    using generate_seed_128_bits [of 5 small_world 0 1 10 7] get_route_small_world by simp
qed

text \<open>
  Claim C9. After a successful call of \<^verbatim>\<open>get_route\<close> each of the two payments has
  exactly one role flag set (Alice's payment the Alice flag, Bob's the Bob flag), and both
  carry the fee budget \<^verbatim>\<open>node_bob.maxfees + node_alice.maxfees\<close>.
\<close>

theorem get_route_roles_and_fees:
  assumes "fst (get_route w alice bob amount r1 r2) = None"
  shows "\<exists>pa pb. payment (nodes (snd (get_route w alice bob amount r1 r2)) ! nat alice) = Some pa \<and>
           payment (nodes (snd (get_route w alice bob amount r1 r2)) ! nat bob) = Some pb \<and>
           is_alice_side pa \<and> \<not> is_bob_side pa \<and> is_bob_side pb \<and> \<not> is_alice_side pb \<and>
           fee_budget pa = maxfees (nodes w ! nat bob) + maxfees (nodes w ! nat alice) \<and>
           fee_budget pb = maxfees (nodes w ! nat bob) + maxfees (nodes w ! nat alice)"
  using get_route_payment_alice[OF assms] get_route_payment_bob[OF assms] by simp

theorem get_route_roles_and_fees_witness:
  "\<exists>pa pb. payment (nodes (snd (get_route small_world 0 1 10 5 7)) ! nat 0) = Some pa \<and>
     payment (nodes (snd (get_route small_world 0 1 10 5 7)) ! nat 1) = Some pb \<and>
     is_alice_side pa \<and> \<not> is_bob_side pa \<and> is_bob_side pb \<and> \<not> is_alice_side pb \<and>
     fee_budget pa = 7 \<and> fee_budget pb = 7"
  using get_route_roles_and_fees [OF get_route_small_world]
  by (simp add: small_world_def plain_node_def)

subsection \<open>check_match\<close>

lemma check_match_body_unset:
  "match_of network fromNode = Inr None \<Longrightarrow>
   check_match_body network fromNode stop = Inr (False, network)"
  by (simp add: check_match_body_def)

lemma check_match_body_set:
  "match_of network fromNode = Inr (Some m) \<Longrightarrow>
   check_match_body network fromNode stop =
     Inr (True, if stop then stop_all_nodes network else network)"
  by (simp add: check_match_body_def)

lemma check_match_body_error:
  "match_of network fromNode = Inl e \<Longrightarrow> check_match_body network fromNode stop = Inl e"
  by (simp add: check_match_body_def)

text \<open>The loop returns at the first iteration that finds the match set.\<close>

lemma check_match_loop_found:
  "\<forall>j. i \<le> j \<and> j < k \<longrightarrow> match_of (env j) fromNode = Inr None \<Longrightarrow>
   match_of (env k) fromNode = Inr (Some m) \<Longrightarrow> i \<le> k \<Longrightarrow>
   check_match_loop env fromNode stop i =
     Some (Inr (if stop then stop_all_nodes (env k) else env k))"
proof (induction "k - i" arbitrary: i)
  case 0
  then have "i = k" by simp
  with 0 show ?case
    by (subst check_match_loop.simps) (simp add: check_match_body_set)
next
  case (Suc d)
  then have lt: "i < k" by simp
  with Suc.prems have unset: "match_of (env i) fromNode = Inr None" by simp
  have "check_match_loop env fromNode stop i = check_match_loop env fromNode stop (Suc i)"
    by (subst check_match_loop.simps) (simp add: check_match_body_unset[OF unset])
  also have "\<dots> = Some (Inr (if stop then stop_all_nodes (env k) else env k))"
  proof (rule Suc.hyps(1))
    show "d = k - Suc i" using Suc.hyps(2) by simp
    show "\<forall>j. Suc i \<le> j \<and> j < k \<longrightarrow> match_of (env j) fromNode = Inr None"
      using Suc.prems(1) by simp
    show "match_of (env k) fromNode = Inr (Some m)" by (rule Suc.prems(2))
    show "Suc i \<le> k" using lt by simp
  qed
  finally show ?case .
qed

text \<open>While the match stays unset the loop never returns, so it never stops a node.\<close>

lemma check_match_loop_unset_forever:
  assumes "\<forall>j. match_of (env j) fromNode = Inr None"
  shows "check_match_loop env fromNode stop i = None"
proof (cases "check_match_loop env fromNode stop i")
  case None
  then show ?thesis .
next
  case (Some y)
  have "env' = env \<longrightarrow> f' = fromNode \<longrightarrow> False"
    if "check_match_loop env' f' stop' i' = Some y'" for env' f' stop' i' y'
  proof (rule check_match_loop.raw_induct
      [where P = "\<lambda>e f s i y. e = env \<longrightarrow> f = fromNode \<longrightarrow> False", OF _ that])
    fix loop e f s i y
    assume IH: "\<And>e f s i y. loop e f s i = Some y \<Longrightarrow> e = env \<longrightarrow> f = fromNode \<longrightarrow> False"
      and step: "(case check_match_body (e i) f s of Inl e \<Rightarrow> Some (Inl e)
        | Inr r \<Rightarrow> if fst r then Some (Inr (snd r)) else loop e f s (Suc i)) = Some y"
    show "e = env \<longrightarrow> f = fromNode \<longrightarrow> False"
    proof (intro impI)
      assume "e = env" "f = fromNode"
      with assms have "check_match_body (e i) f s = Inr (False, e i)"
        by (simp add: check_match_body_unset)
      with step have "loop e f s (Suc i) = Some y" by simp
      from IH[OF this] \<open>e = env\<close> \<open>f = fromNode\<close> show False by simp
    qed
  qed
  from this[OF Some] show ?thesis by simp
qed

lemma stop_all_nodes_stopped: "\<forall>nd\<in>set (stop_all_nodes network). \<not> running nd"
  by (simp add: stop_all_nodes_def node_stop_def)

lemma stop_all_nodes_length: "length (stop_all_nodes network) = length network"
  by (simp add: stop_all_nodes_def)

lemma match_of_searching: "match_of searching 0 = Inr None"
  by (simp add: match_of_def getitem_def searching_def open_payment_def)

lemma match_of_matched: "match_of matched 0 = Inr (Some \<lparr>match_id = ''m'', from_id = 1\<rparr>)"
  by (simp add: match_of_def getitem_def matched_def open_payment_def)

text \<open>
  Claim C6. As long as \<^verbatim>\<open>network[fromNode].payment.match\<close> is unset, an iteration of
  \<^verbatim>\<open>check_match\<close> leaves every node as it is and the loop goes on. At the first
  iteration that finds the match set, \<^verbatim>\<open>check_match\<close> returns; it has then called
  \<^verbatim>\<open>stop\<close> on every node of the network if its parameter \<^verbatim>\<open>stop\<close> is true, and on no
  node if it is false.
\<close>

theorem check_match_stops_on_match:
  assumes "\<forall>i<k. match_of (env i) fromNode = Inr None"
    and "match_of (env k) fromNode = Inr (Some m)"
  shows "(\<forall>i<k. check_match_body (env i) fromNode stop = Inr (False, env i)) \<and>
         check_match env fromNode checkTime stop =
           Some (Inr (if stop then stop_all_nodes (env k) else env k)) \<and>
         stop_all_nodes (env k) = map node_stop (env k) \<and>
         (\<forall>nd\<in>set (stop_all_nodes (env k)). \<not> running nd)"
proof (intro conjI)
  show "\<forall>i<k. check_match_body (env i) fromNode stop = Inr (False, env i)"
    using assms(1) by (simp add: check_match_body_unset)
  show "check_match env fromNode checkTime stop =
      Some (Inr (if stop then stop_all_nodes (env k) else env k))"
    unfolding check_match_def
    by (rule check_match_loop_found[where k = k and m = m]) (use assms in simp_all)
  show "stop_all_nodes (env k) = map node_stop (env k)"
    by (simp add: stop_all_nodes_def)
  show "\<forall>nd\<in>set (stop_all_nodes (env k)). \<not> running nd"
    by (rule stop_all_nodes_stopped)
qed

theorem check_match_stops_on_match_witness:
  "check_match_body (watch_env 0) 0 True = Inr (False, searching) \<and>
   check_match_body (watch_env 1) 0 True = Inr (False, searching) \<and>
   check_match watch_env 0 3 True = Some (Inr (stop_all_nodes matched)) \<and>
   check_match watch_env 0 3 False = Some (Inr matched) \<and>
   map running (stop_all_nodes matched) = [False, False] \<and>
   map running matched = [True, True]"
proof -
  have unset: "\<forall>i<2. match_of (watch_env i) 0 = Inr None"
    by (simp add: watch_env_def match_of_searching)
  have found: "match_of (watch_env 2) 0 = Inr (Some \<lparr>match_id = ''m'', from_id = 1\<rparr>)"
    by (simp add: watch_env_def match_of_matched)
  have run: "map running matched = [True, True]"
    by (simp add: matched_def plain_node_def)
  have halted: "map running (stop_all_nodes matched) = [False, False]"
    by (simp add: stop_all_nodes_def node_stop_def matched_def)
  have w: "watch_env 0 = searching" "watch_env (Suc 0) = searching" "watch_env 2 = matched"
    by (simp_all add: watch_env_def)
  note on = check_match_stops_on_match [OF unset found, of True 3]
  note off = check_match_stops_on_match [OF unset found, of False 3]
  from on have "check_match_body (watch_env 0) 0 True = Inr (False, watch_env 0)"
    and "check_match_body (watch_env 1) 0 True = Inr (False, watch_env 1)"
    by simp_all
  moreover from on have "check_match watch_env 0 3 True = Some (Inr (stop_all_nodes (watch_env 2)))"
    by simp
  moreover from off have "check_match watch_env 0 3 False = Some (Inr (watch_env 2))"
    by simp
  ultimately show ?thesis
    using run halted by (simp add: w)
qed

subsection \<open>build_route\<close>

text \<open>One call of \<^verbatim>\<open>build_route\<close>, for a depth given as a numeral.\<close>

lemma build_route_unfold:
  "build_route depth network matchId current res =
     (if depth = 0 then (Some RecursionError, res)
      else (case next_of network matchId current of
              Inl e \<Rightarrow> (Some e, res)
            | Inr nxt \<Rightarrow>
                if current = nxt then (None, res @ [current])
                else build_route (depth - 1) network matchId nxt (res @ [current])))"
  by (cases depth) (simp_all add: Let_def split: sum.splits)

lemma next_of_ptr_node:
  "next_of (map ptr_node vs) ''m'' i =
     (if 0 \<le> i \<and> i < int (length vs) then Inr (vs ! nat i)
      else if i < 0 \<and> - int (length vs) \<le> i then Inr (vs ! nat (int (length vs) + i))
      else Inl IndexError)"
proof -
  have "match_data (map ptr_node vs ! j) ''m'' = Some (vs ! j)" if "j < length vs" for j
    using that by (simp add: ptr_node_def)
  moreover have "nat i < length vs" if "0 \<le> i" "i < int (length vs)"
    using that by simp
  moreover have "nat (int (length vs) + i) < length vs" if "i < 0" "- int (length vs) \<le> i"
    using that by simp
  ultimately show ?thesis
    by (simp add: next_of_def getitem_def del: nth_map)
qed

lemma follow_self: "next_of network matchId u = Inr u \<Longrightarrow> follow network matchId n u = Some u"
  by (induction n) auto

text \<open>
  The walk itself is right: when the pointers reach a node that points to itself and the
  stack is deep enough, the call returns, and it has appended to \<^verbatim>\<open>res\<close> the route from
  \<open>start\<close> to that node.
\<close>

lemma build_route_walk:
  "follow network matchId n start = Some u \<Longrightarrow> next_of network matchId u = Inr u \<Longrightarrow>
   n < depth \<Longrightarrow>
   \<exists>p. build_route depth network matchId start res = (None, res @ p) \<and>
       is_chain network matchId p \<and> hd p = start \<and> last p = u \<and> length p \<le> Suc n"
proof (induction depth arbitrary: n start res)
  case 0
  then show ?case by simp
next
  case (Suc depth)
  show ?case
  proof (cases n)
    case 0
    with Suc.prems have "start = u" by simp
    with Suc.prems have "build_route (Suc depth) network matchId start res = (None, res @ [u])"
      by simp
    moreover have "is_chain network matchId [u]" using Suc.prems by simp
    ultimately show ?thesis using \<open>start = u\<close> by (intro exI[of _ "[u]"]) simp
  next
    case (Suc m)
    with Suc.prems obtain v where v: "next_of network matchId start = Inr v"
      "follow network matchId m v = Some u"
      by (auto split: sum.splits)
    show ?thesis
    proof (cases "start = v")
      case True
      with v have "follow network matchId m start = Some start" using follow_self by simp
      with v True have "u = start" by simp
      with v True have "build_route (Suc depth) network matchId start res = (None, res @ [start])"
        by simp
      moreover have "is_chain network matchId [start]" using v True by simp
      ultimately show ?thesis using \<open>u = start\<close> by (intro exI[of _ "[start]"]) simp
    next
      case False
      from Suc.prems Suc have "m < depth" by simp
      from Suc.IH[OF v(2) Suc.prems(2) this, of "res @ [start]"]
      obtain p where p: "build_route depth network matchId v (res @ [start]) = (None, (res @ [start]) @ p)"
        "is_chain network matchId p" "hd p = v" "last p = u" "length p \<le> Suc m" by blast
      from p(2) have pne: "p \<noteq> []" by (cases p) auto
      then obtain q where q: "p = v # q" using p(3) by (cases p) auto
      have "build_route (Suc depth) network matchId start res = (None, res @ (start # p))"
        using v False p(1) by simp
      moreover have "is_chain network matchId (start # p)" using q p(2) v False by simp
      moreover have "last (start # p) = u" using pne p(4) by simp
      ultimately show ?thesis using p(5) Suc by (intro exI[of _ "start # p"]) simp
    qed
  qed
qed

lemma is_chain_nth:
  "is_chain network matchId p \<Longrightarrow> Suc i < length p \<Longrightarrow>
   next_of network matchId (p ! i) = Inr (p ! Suc i) \<and> p ! i \<noteq> p ! Suc i"
proof (induction network matchId p arbitrary: i rule: is_chain.induct)
  case (3 network matchId u v p)
  then show ?case by (cases i) auto
qed auto

lemma is_chain_last:
  "is_chain network matchId p \<Longrightarrow> next_of network matchId (last p) = Inr (last p)"
  by (induction network matchId p rule: is_chain.induct) auto

lemma is_chain_nonempty: "is_chain network matchId p \<Longrightarrow> p \<noteq> []"
  by (cases p) auto

lemma is_chain_single:
  "is_chain network matchId p \<Longrightarrow> next_of network matchId (hd p) = Inr (hd p) \<Longrightarrow> p = [hd p]"
  by (cases p; cases "tl p") auto

text \<open>
  With an empty accumulator, as on the first call that omits \<^verbatim>\<open>res\<close>, the route
  returned begins with \<open>start\<close>, follows the pointers, and ends at the one node of the
  chain that points to itself.
\<close>

lemma build_route_fresh:
  assumes "follow network matchId n start = Some u" "next_of network matchId u = Inr u"
    "n < depth"
  shows "\<exists>p. build_route_default depth network matchId start [] = (None, p) \<and>
           p \<noteq> [] \<and> hd p = start \<and> last p = u \<and>
           (\<forall>i. Suc i < length p \<longrightarrow>
              next_of network matchId (p ! i) = Inr (p ! Suc i) \<and> p ! i \<noteq> p ! Suc i) \<and>
           (next_of network matchId start = Inr start \<longrightarrow> p = [start])"
proof -
  from build_route_walk[OF assms, of "[]"] obtain p where
    p: "build_route depth network matchId start [] = (None, p)" "is_chain network matchId p"
      "hd p = start" "last p = u"
    by auto
  show ?thesis
  proof (intro exI[of _ p] conjI allI impI)
    show "build_route_default depth network matchId start [] = (None, p)"
      using p(1) by (simp add: build_route_default_def)
    show "p \<noteq> []" using p(2) by (rule is_chain_nonempty)
    show "hd p = start" by (rule p(3))
    show "last p = u" by (rule p(4))
    show "next_of network matchId (p ! i) = Inr (p ! Suc i)" if "Suc i < length p" for i
      using is_chain_nth[OF p(2) that] by simp
    show "p ! i \<noteq> p ! Suc i" if "Suc i < length p" for i
      using is_chain_nth[OF p(2) that] by simp
    show "p = [start]" if "next_of network matchId start = Inr start"
      using is_chain_single[OF p(2)] that p(3) by simp
  qed
qed

text \<open>On the line \<open>2 \<rightarrow> 1 \<rightarrow> 0\<close> the first call from node 2 returns the whole line.\<close>

lemma build_route_line3: "build_route_default 1000 line3 ''m'' 2 [] = (None, [2, 1, 0])"
  using next_of_ptr_node[of "[0, 0, 1]"]
  by (simp add: build_route_default_def build_route_unfold line3_def)

text \<open>Pointers that never reach a self-pointing node exhaust the stack.\<close>

lemma build_route_cycle:
  "start \<in> C \<Longrightarrow> \<forall>u\<in>C. \<exists>v\<in>C. next_of network matchId u = Inr v \<and> v \<noteq> u \<Longrightarrow>
   fst (build_route depth network matchId start res) = Some RecursionError \<and>
   length (snd (build_route depth network matchId start res)) = length res + depth"
proof (induction depth arbitrary: start res)
  case 0
  then show ?case by simp
next
  case (Suc depth)
  from Suc.prems obtain v where v: "v \<in> C" "next_of network matchId start = Inr v" "v \<noteq> start"
    by blast
  then show ?case using Suc.IH[OF v(1) Suc.prems(2), of "res @ [start]"] by auto
qed

lemma next_of_unmatched:
  "\<forall>nd\<in>set network. match_data nd matchId = None \<Longrightarrow>
   next_of network matchId start =
     Inl (if - int (length network) \<le> start \<and> start < int (length network)
          then KeyError else IndexError)"
  by (auto simp: next_of_def getitem_def)

lemma two_cycle_closed:
  "\<forall>u\<in>{0, 1}. \<exists>v\<in>{0, 1}. next_of two_cycle ''m'' u = Inr v \<and> v \<noteq> u"
  using next_of_ptr_node[of "[1, 0]"] by (simp add: two_cycle_def)

text \<open>
  Claim C1. On the network of two endpoints, each its own pointer, a first call
  \<^verbatim>\<open>build_route(network, 'm', 0)\<close> returns \<^verbatim>\<open>[0]\<close>; the next call
  \<^verbatim>\<open>build_route(network, 'm', 1)\<close> works on the same default list and returns
  \<^verbatim>\<open>[0, 1]\<close>: the route does not begin with the start node 1, its pair \<open>(0, 1)\<close> is no
  pointer of the network, and it is not the single-element path although node 1 points to
  itself.
\<close>

theorem build_route_second_call:
  "(let first = build_route_default 1000 two_ends ''m'' 0 [];
        second = build_route_default 1000 two_ends ''m'' 1 (snd first)
    in (first, second)) = ((None, [0]), (None, [0, 1])) \<and>
   next_of two_ends ''m'' 0 = Inr 0 \<and> next_of two_ends ''m'' 1 = Inr 1"
  using next_of_ptr_node[of "[0, 1]"]
  by (simp add: build_route_default_def build_route_unfold two_ends_def Let_def)

text \<open>
  Claim C2 (as the code has it). \<^verbatim>\<open>build_route\<close> has no cycle guard. When the pointers
  from the start node stay among nodes none of which points to itself, the recursion goes
  on until the interpreter's stack is exhausted: the call fails with \<^verbatim>\<open>RecursionError\<close>,
  which is not an Integrity error, having appended one identity per call; it returns no
  route.
\<close>

theorem build_route_cycle_recursion_error:
  assumes "start \<in> C"
    and "\<forall>u\<in>C. \<exists>v\<in>C. next_of network matchId u = Inr v \<and> v \<noteq> u"
  shows "fst (build_route_default depth network matchId start dflt) = Some RecursionError \<and>
         kind_of RecursionError = None \<and>
         length (snd (build_route_default depth network matchId start dflt)) = length dflt + depth"
  using build_route_cycle[OF assms, of depth dflt]
  by (simp add: build_route_default_def kind_of_def)

theorem build_route_cycle_recursion_error_witness:
  "fst (build_route_default 5 two_cycle ''m'' 0 []) = Some RecursionError \<and>
   snd (build_route_default 5 two_cycle ''m'' 0 []) = [0, 1, 0, 1, 0]"
proof -
  have "0 \<in> {0, 1 :: int}" by simp
  from build_route_cycle_recursion_error [OF this two_cycle_closed, of 5 "[]"]
  have "fst (build_route_default 5 two_cycle ''m'' 0 []) = Some RecursionError" by simp
  moreover have "snd (build_route_default 5 two_cycle ''m'' 0 []) = [0, 1, 0, 1, 0]"
    using next_of_ptr_node[of "[1, 0]"]
    by (simp add: build_route_default_def build_route_unfold two_cycle_def)
  ultimately show ?thesis by simp
qed

theorem build_route_cycle_counterexample:
  "fst (build_route_default 1000 two_cycle ''m'' 0 []) = Some RecursionError \<and>
   kind_of RecursionError \<noteq> Some Integrity"
proof -
  have "0 \<in> {0, 1 :: int}" by simp
  from build_route_cycle[OF this two_cycle_closed, of 1000 "[]"]
  show ?thesis by (simp add: build_route_default_def kind_of_def)
qed

text \<open>
  Claim C4 (as the code has it). \<^verbatim>\<open>build_route\<close> has no check that a match exists. When
  no node holds an entry for the match id, the first lookup fails: the call raises
  \<^verbatim>\<open>KeyError\<close> (\<^verbatim>\<open>IndexError\<close> when the start index is outside the network), neither
  of them a NotMatched error, appends nothing and returns no route.
\<close>

theorem build_route_unmatched:
  assumes "\<forall>nd\<in>set network. match_data nd matchId = None"
  shows "build_route_default (Suc depth) network matchId start dflt =
           (Some (if - int (length network) \<le> start \<and> start < int (length network)
                  then KeyError else IndexError), dflt) \<and>
         kind_of KeyError = None \<and> kind_of IndexError = None"
  using next_of_unmatched[OF assms, of start]
  by (simp add: build_route_default_def kind_of_def)

theorem build_route_unmatched_witness:
  "build_route_default (Suc 9) [plain_node, plain_node] ''m'' 1 [] = (Some KeyError, []) \<and>
   build_route_default (Suc 9) [plain_node, plain_node] ''m'' 2 [] = (Some IndexError, [])"
proof -
  have none: "\<forall>nd\<in>set [plain_node, plain_node]. match_data nd ''m'' = None"
    by (simp add: plain_node_def)
  show ?thesis
    using build_route_unmatched [OF none, of 9 1 "[]"] build_route_unmatched [OF none, of 9 2 "[]"]
    by simp
qed

theorem build_route_unmatched_counterexample:
  "build_route_default 1000 [plain_node] ''m'' 0 [] = (Some KeyError, []) \<and>
   kind_of KeyError \<noteq> Some NotMatched"
  by (simp add: build_route_default_def build_route_unfold next_of_def getitem_def
      plain_node_def kind_of_def)

text \<open>
  Claim C10. On the network of one endpoint, two successive calls
  \<^verbatim>\<open>build_route(network, 'm', 0)\<close> that omit \<^verbatim>\<open>res\<close>: the first returns \<^verbatim>\<open>[0]\<close>, the
  second works on the default list the first one left and returns \<^verbatim>\<open>[0, 0]\<close>, which
  holds the identity the first call accumulated.
\<close>

theorem build_route_keeps_state:
  "(let first = build_route_default 1000 one_end ''m'' 0 [];
        second = build_route_default 1000 one_end ''m'' 0 (snd first)
    in (first, second)) = ((None, [0]), (None, [0, 0]))"
  using next_of_ptr_node[of "[0]"]
  by (simp add: build_route_default_def build_route_unfold one_end_def Let_def)

end
